theory Spec2Isabelle
  imports Main "HOL-Library.Word"
begin

unbundle bit_operations_syntax

section \<open>Data model (cacheNode.go, hashRing.go, distributedCache.go)\<close>

type_synonym uint32 = "32 word"
type_synonym byte = "8 word"

text \<open>\<^verbatim>\<open>type nodeInfo struct { ID, IP, Port, GroupID string }\<close>\<close>

record nodeInfo =
  ID :: string
  IP :: string
  Port :: string
  GroupID :: string

text \<open>\<^verbatim>\<open>type cacheData struct { bytes []byte; copy int; crc uint32 }\<close>\<close>

record cacheData =
  bytes :: "byte list"
  copy :: int
  crc :: uint32

text \<open>
  \<^verbatim>\<open>type cacheNode struct { nodeInfo; data map[string]cacheData; mtx; server }\<close>.
  The embedded \<open>nodeInfo\<close> is a record extension. The lock and the server handle carry
  no data of the model. The ring holds \<open>*cacheNode\<close> values; a pointer that may be
  \<open>nil\<close> is a \<open>cacheNode option\<close>. No ring operation writes through such a
  pointer, so the ring stores the nodes by value.
\<close>

record cacheNode = nodeInfo +
  data :: "string \<rightharpoonup> cacheData"

text \<open>\<^verbatim>\<open>type hashRing struct { nodes []*cacheNode; sortedHashes []uint32; nodeMap map[uint32]*cacheNode; mtx }\<close>\<close>

record hashRing =
  nodes :: "cacheNode list"
  sortedHashes :: "uint32 list"
  nodeMap :: "uint32 \<rightharpoonup> cacheNode"

text \<open>
  A run-time panic of Go: an index out of range, or a field read through a nil pointer.
\<close>

datatype panic = IndexOutOfRange | NilDereference

section \<open>CRC-32 (hash/crc32 of the Go standard library)\<close>

text \<open>
  \<open>crc32.ChecksumIEEE\<close> is the reflected CRC-32 with polynomial \<open>0xedb88320\<close>. The model
  follows the library's reference implementation: \<open>simpleMakeTable\<close> computes the entry of
  a byte by eight shift-and-xor rounds, \<open>simpleUpdate\<close> folds the bytes into the inverted
  checksum, and the result is inverted again.
\<close>

definition IEEE :: uint32 where
  "IEEE = 0xedb88320"

definition crc_round :: "uint32 \<Rightarrow> uint32" where
  "crc_round c = (if c AND 1 = 1 then drop_bit 1 c XOR IEEE else drop_bit 1 c)"

definition simpleMakeTable :: "byte \<Rightarrow> uint32" where
  "simpleMakeTable i = (crc_round ^^ 8) (ucast i)"

text \<open>The loop body of \<open>simpleUpdate\<close>: \<^verbatim>\<open>crc = tab[byte(crc)^v] ^ (crc >> 8)\<close>.\<close>

definition update_byte :: "uint32 \<Rightarrow> byte \<Rightarrow> uint32" where
  "update_byte c v = simpleMakeTable (ucast c XOR v) XOR drop_bit 8 c"

text \<open>\<^verbatim>\<open>crc = ^crc; for _, v := range p { ... }; return ^crc\<close>\<close>

fun simpleUpdate_loop :: "uint32 \<Rightarrow> byte list \<Rightarrow> uint32" where
  "simpleUpdate_loop c [] = c"
| "simpleUpdate_loop c (v # p) = simpleUpdate_loop (update_byte c v) p"

definition simpleUpdate :: "uint32 \<Rightarrow> byte list \<Rightarrow> uint32" where
  "simpleUpdate c p = NOT (simpleUpdate_loop (NOT c) p)"

definition ChecksumIEEE :: "byte list \<Rightarrow> uint32" where
  "ChecksumIEEE p = simpleUpdate 0 p"

text \<open>The conversion \<open>[]byte(s)\<close> of a string.\<close>

definition byteslice :: "string \<Rightarrow> byte list" where
  "byteslice s = map of_char s"

text \<open>
  \<^verbatim>\<open>crc32.ChecksumIEEE([]byte(s))\<close>, the first statement of every ring operation: the
  position of a node ID or of a key on the ring.
\<close>

definition ringHash :: "string \<Rightarrow> uint32" where
  "ringHash s = ChecksumIEEE (byteslice s)"

section \<open>The hash ring (hashRing.go)\<close>

definition NewHashRing :: hashRing where
  "NewHashRing = \<lparr>nodes = [], sortedHashes = [], nodeMap = Map.empty\<rparr>"

definition newCacheNode :: "nodeInfo \<Rightarrow> cacheNode" where
  "newCacheNode node = nodeInfo.extend node (cacheNode.fields Map.empty)"

text \<open>
  \<open>addNode\<close>: a hash that is already a key of \<open>nodeMap\<close> returns early. Otherwise the node
  is appended to \<open>nodes\<close>, the hash to \<open>sortedHashes\<close>, and \<open>sort.Slice\<close> orders the
  hashes by \<open><\<close> on \<open>uint32\<close>; on a list of numbers every sorting algorithm returns the
  same list, here \<open>sort\<close>.
\<close>

definition ring_addNode :: "hashRing \<Rightarrow> nodeInfo \<Rightarrow> hashRing" where
  "ring_addNode ring node =
     (let hash = ringHash (ID node) in
      if nodeMap ring hash \<noteq> None then ring
      else
        let cnode = newCacheNode node in
        ring\<lparr>nodes := nodes ring @ [cnode],
             sortedHashes := sort (sortedHashes ring @ [hash]),
             nodeMap := (nodeMap ring)(hash \<mapsto> cnode)\<rparr>)"

text \<open>
  The two loops of \<open>removeNode\<close> each delete the first match and \<open>break\<close>:
  the first occurrence of the hash, and the first node whose ID is the given one.
\<close>

fun remove_first_ID :: "string \<Rightarrow> cacheNode list \<Rightarrow> cacheNode list" where
  "remove_first_ID nodeID [] = []"
| "remove_first_ID nodeID (node # rest) =
     (if ID node = nodeID then rest else node # remove_first_ID nodeID rest)"

definition ring_removeNode :: "hashRing \<Rightarrow> string \<Rightarrow> hashRing" where
  "ring_removeNode ring nodeID =
     (let hash = ringHash nodeID in
      if nodeMap ring hash = None then ring
      else
        ring\<lparr>nodeMap := (nodeMap ring)(hash := None),
             sortedHashes := remove1 hash (sortedHashes ring),
             nodes := remove_first_ID nodeID (nodes ring)\<rparr>)"


text \<open>
  \<open>sort.Search n f\<close> of the Go standard library: the binary search
  \<^verbatim>\<open>i, j := 0, n; for i < j { h := int(uint(i+j) >> 1); if !f(h) { i = h + 1 } else { j = h } }; return i\<close>.
\<close>

function search_loop :: "(nat \<Rightarrow> bool) \<Rightarrow> nat \<Rightarrow> nat \<Rightarrow> nat" where
  "search_loop f i j =
     (if i < j then
        (let h = (i + j) div 2 in
         if \<not> f h then search_loop f (h + 1) j else search_loop f i h)
      else i)"
  by pat_completeness auto
termination
  by (relation "measure (\<lambda>(f, i, j). j - i)") auto

definition sort_Search :: "nat \<Rightarrow> (nat \<Rightarrow> bool) \<Rightarrow> nat" where
  "sort_Search n f = search_loop f 0 n"

text \<open>Go's bounds-checked \<open>s[i]\<close>.\<close>

definition index :: "'a list \<Rightarrow> nat \<Rightarrow> panic + 'a" where
  "index s i = (if i < length s then Inr (s ! i) else Inl IndexOutOfRange)"

text \<open>
  \<open>getNode\<close>: the search predicate reads \<open>sortedHashes[i]\<close> only at positions below the
  length; the read after the search is the one that can be out of range.
\<close>

definition getNode :: "hashRing \<Rightarrow> string \<Rightarrow> panic + cacheNode option" where
  "getNode ring key =
     (let hash = ringHash key;
          idx = sort_Search (length (sortedHashes ring)) (\<lambda>i. sortedHashes ring ! i \<ge> hash);
          idx = (if idx = length (sortedHashes ring) then 0 else idx)
      in case index (sortedHashes ring) idx of
           Inl e \<Rightarrow> Inl e
         | Inr h \<Rightarrow> Inr (nodeMap ring h))"

text \<open>
  The loop of \<open>getNodes\<close>:
  \<^verbatim>\<open>for redundancy > 0 { idx++; if idx >= len(ring.sortedHashes) { idx = 0 }; if idx == masterIdx { break }; nodes = append(...); redundancy-- }\<close>.
  \<open>clockwise\<close> is its first two statements.
\<close>

definition clockwise :: "hashRing \<Rightarrow> nat \<Rightarrow> nat" where
  "clockwise ring idx = (if idx + 1 \<ge> length (sortedHashes ring) then 0 else idx + 1)"

function getNodes_loop ::
  "hashRing \<Rightarrow> nat \<Rightarrow> nat \<Rightarrow> int \<Rightarrow> cacheNode option list \<Rightarrow> panic + cacheNode option list" where
  "getNodes_loop ring masterIdx idx redundancy acc =
     (if redundancy > 0 then
        (let idx = clockwise ring idx
         in if idx = masterIdx then Inr acc
            else case index (sortedHashes ring) idx of
                   Inl e \<Rightarrow> Inl e
                 | Inr h \<Rightarrow>
                     getNodes_loop ring masterIdx idx (redundancy - 1) (acc @ [nodeMap ring h]))
      else Inr acc)"
  by pat_completeness auto
termination
  by (relation "measure (\<lambda>(ring, masterIdx, idx, redundancy, acc). nat redundancy)") auto

definition getNodes :: "hashRing \<Rightarrow> string \<Rightarrow> int \<Rightarrow> panic + cacheNode option list" where
  "getNodes ring key redundancy =
     (let hash = ringHash key;
          idx = sort_Search (length (sortedHashes ring)) (\<lambda>i. sortedHashes ring ! i \<ge> hash);
          idx = (if idx = length (sortedHashes ring) then 0 else idx)
      in case index (sortedHashes ring) idx of
           Inl e \<Rightarrow> Inl e
         | Inr h \<Rightarrow> getNodes_loop ring idx idx redundancy [nodeMap ring h])"

section \<open>The distributed cache (distributedCache.go)\<close>

text \<open>
  \<^verbatim>\<open>type distributedCache struct { *hashRing; *peerDiscovery; redundancy int; nodeHB map[string]time.Time; mtx }\<close>.
  A \<open>time.Time\<close> taken by \<open>time.Now()\<close> is its monotonic clock reading in nanoseconds.
  The sockets and the HTTP client of \<open>peerDiscovery\<close> are the environment of the
  functions below.
\<close>

type_synonym time = int

record distributedCache =
  hashRing :: hashRing
  redundancy :: int
  nodeHB :: "string \<rightharpoonup> time"

definition newDistributedCache :: "int \<Rightarrow> distributedCache" where
  "newDistributedCache r = \<lparr>hashRing = NewHashRing, redundancy = r, nodeHB = Map.empty\<rparr>"

text \<open>\<open>addNode\<close>; \<open>now\<close> is the value of \<open>time.Now()\<close>.\<close>

definition cache_addNode :: "distributedCache \<Rightarrow> nodeInfo \<Rightarrow> time \<Rightarrow> distributedCache" where
  "cache_addNode cache node now =
     (let cache = (if nodeHB cache (ID node) = None
                   then cache\<lparr>hashRing := ring_addNode (hashRing cache) node\<rparr>
                   else cache)
      in cache\<lparr>nodeHB := (nodeHB cache)(ID node \<mapsto> now)\<rparr>)"

definition removeNode_unlocked :: "distributedCache \<Rightarrow> string \<Rightarrow> distributedCache" where
  "removeNode_unlocked cache nodeID =
     (let cache = cache\<lparr>nodeHB := (nodeHB cache)(nodeID := None)\<rparr>
      in cache\<lparr>hashRing := ring_removeNode (hashRing cache) nodeID\<rparr>)"

section \<open>Peer discovery\<close>

subsection \<open>The receiver\<close>

text \<open>
  What \<open>json.Unmarshal\<close> finds in a datagram for one field of \<open>nodeInfo\<close>: no member
  of that name (or \<open>null\<close>), a JSON string, or a value of another JSON type. A string is
  stored; the other two leave the field of the target as it was, and a value of another
  type makes \<open>Unmarshal\<close> return an error after the remaining members are decoded. The
  target \<open>node\<close> is declared once, before the loop, so a field that a datagram does not
  set keeps the value of an earlier datagram.
\<close>

datatype json_member = Absent | Str string | WrongType

record heartbeat =
  node_id :: json_member
  node_ip :: json_member
  node_port :: json_member
  group_id :: json_member

text \<open>
  One round of the receive loop reads a datagram: the read fails, or the bytes are not
  JSON for an object (\<open>Unmarshal\<close> fails before it writes), or they are an object.
\<close>

datatype udp_read = ReadFailed | NotJSON | Payload heartbeat

definition assign :: "json_member \<Rightarrow> string \<Rightarrow> string" where
  "assign m old = (case m of Str s \<Rightarrow> s | _ \<Rightarrow> old)"

text \<open>\<open>json.Unmarshal(buf[:n], &node)\<close>: the error flag and the target afterwards.\<close>

definition json_Unmarshal :: "heartbeat \<Rightarrow> nodeInfo \<Rightarrow> bool \<times> nodeInfo" where
  "json_Unmarshal hb node =
     (node_id hb = WrongType \<or> node_ip hb = WrongType \<or>
      node_port hb = WrongType \<or> group_id hb = WrongType,
      \<lparr>ID = assign (node_id hb) (ID node), IP = assign (node_ip hb) (IP node),
       Port = assign (node_port hb) (Port node),
       GroupID = assign (group_id hb) (GroupID node)\<rparr>)"

text \<open>
  The datagram \<open>sendHeartbeats\<close> sends for a node, \<open>json.Marshal(node)\<close>, as the
  receiver decodes it: each of the four members is a string. This is for fields that are
  valid UTF-8; the encoder replaces the other bytes of a string by U+FFFD.
\<close>

definition json_Marshal :: "nodeInfo \<Rightarrow> heartbeat" where
  "json_Marshal node =
     \<lparr>node_id = Str (ID node), node_ip = Str (IP node), node_port = Str (Port node),
      group_id = Str (GroupID node)\<rparr>"

text \<open>
  One round of \<open>receiveHeartbeats\<close>, on the loop variable \<open>node\<close> and the cache;
  \<open>now\<close> is the clock when \<open>addNode\<close> runs.
\<close>

definition receive_round ::
  "string \<Rightarrow> string \<Rightarrow> udp_read \<Rightarrow> time \<Rightarrow> nodeInfo \<times> distributedCache
     \<Rightarrow> nodeInfo \<times> distributedCache" where
  "receive_round myNodeID myGroupID rd now st =
     (let (node, cache) = st in
      case rd of
        ReadFailed \<Rightarrow> (node, cache)
      | NotJSON \<Rightarrow> (node, cache)
      | Payload hb \<Rightarrow>
          (let (err, node) = json_Unmarshal hb node in
           if err then (node, cache)
           else if ID node = myNodeID then (node, cache)
           else if GroupID node = myGroupID then (node, cache)
           else (node, cache_addNode cache node now)))"

text \<open>The loop, over the datagrams that arrive before the context is cancelled.\<close>

fun receiveHeartbeats ::
  "string \<Rightarrow> string \<Rightarrow> (udp_read \<times> time) list \<Rightarrow> nodeInfo \<times> distributedCache
     \<Rightarrow> nodeInfo \<times> distributedCache" where
  "receiveHeartbeats myNodeID myGroupID [] st = st"
| "receiveHeartbeats myNodeID myGroupID ((rd, now) # rest) st =
     receiveHeartbeats myNodeID myGroupID rest (receive_round myNodeID myGroupID rd now st)"

definition zero_nodeInfo :: nodeInfo where
  "zero_nodeInfo = \<lparr>ID = [], IP = [], Port = [], GroupID = []\<rparr>"

subsection \<open>The monitor\<close>







section \<open>The per-node store and endpoint (cacheNode.go)\<close>

definition cacheNode_get :: "cacheNode \<Rightarrow> string \<Rightarrow> byte list \<times> bool" where
  "cacheNode_get cnode key =
     (case data cnode key of None \<Rightarrow> ([], False) | Some v \<Rightarrow> (bytes v, True))"

definition cacheNode_set :: "cacheNode \<Rightarrow> string \<Rightarrow> int \<Rightarrow> byte list \<Rightarrow> cacheNode" where
  "cacheNode_set cnode key rank val =
     cnode\<lparr>data := (data cnode)(key \<mapsto> \<lparr>bytes = val, copy = rank, crc = ChecksumIEEE val\<rparr>)\<rparr>"

definition cacheNode_remove :: "cacheNode \<Rightarrow> string \<Rightarrow> cacheNode" where
  "cacheNode_remove cnode key = cnode\<lparr>data := (data cnode)(key := None)\<rparr>"

text \<open>
  \<open>strconv.Atoi\<close>: an optional sign and at least one decimal digit, nothing else, and a
  value that fits an \<open>int\<close> of 64 bits.
\<close>

definition digit_value :: "char \<Rightarrow> nat option" where
  "digit_value c =
     (let n = (of_char c :: nat) in if 48 \<le> n \<and> n \<le> 57 then Some (n - 48) else None)"

fun parse_digits :: "nat \<Rightarrow> string \<Rightarrow> nat option" where
  "parse_digits n [] = Some n"
| "parse_digits n (c # cs) =
     (case digit_value c of None \<Rightarrow> None | Some d \<Rightarrow> parse_digits (10 * n + d) cs)"

definition Atoi :: "string \<Rightarrow> int option" where
  "Atoi s =
     (let (neg, ds) = (case s of
                         c # cs \<Rightarrow> if c = CHR ''-'' then (True, cs)
                                   else if c = CHR ''+'' then (False, cs) else (False, s)
                       | [] \<Rightarrow> (False, s))
      in if ds = [] then None
         else case parse_digits 0 ds of
                None \<Rightarrow> None
              | Some n \<Rightarrow>
                  (let i = (if neg then - int n else int n)
                   in if - (2 ^ 63) \<le> i \<and> i \<le> 2 ^ 63 - 1 then Some i else None))"

text \<open>
  An HTTP exchange. The body of a request is the JSON object of a SET, given by the
  members of the map that \<open>json.Marshal\<close> encodes (the encoder replaces the bytes of a key
  that are not valid UTF-8 by U+FFFD), or nothing that decodes to one. Reading the body
  of a response gives its bytes or fails.
\<close>

datatype http_method = GET | POST | DELETE | OtherMethod

datatype error = Error string

record request =
  Method :: http_method
  URL :: string
  ReqBody :: "(string \<times> byte list) list option"

record response =
  StatusCode :: nat
  RespBody :: "error + byte list"

text \<open>
  \<open>ServeHTTP\<close>, on the method, the query of the URL (\<open>r.URL.Query().Get\<close>, the empty
  string for a parameter that is missing) and the body. A handler that writes no status
  answers 200.
\<close>

definition ServeHTTP ::
  "cacheNode \<Rightarrow> http_method \<Rightarrow> (string \<Rightarrow> string) \<Rightarrow> (string \<times> byte list) list option
     \<Rightarrow> response \<times> cacheNode" where
  "ServeHTTP cnode m query body =
     (case m of
        GET \<Rightarrow>
          (let key = query ''key'';
               (val, exists) = cacheNode_get cnode key
           in if exists then (\<lparr>StatusCode = 200, RespBody = Inr val\<rparr>, cnode)
              else (\<lparr>StatusCode = 404, RespBody = Inr []\<rparr>, cnode))
      | POST \<Rightarrow>
          (case Atoi (query ''copy'') of
             None \<Rightarrow> (\<lparr>StatusCode = 400, RespBody = Inr []\<rparr>, cnode)
           | Some rank \<Rightarrow>
               (case body of
                  None \<Rightarrow> (\<lparr>StatusCode = 400, RespBody = Inr []\<rparr>, cnode)
                | Some kv \<Rightarrow>
                    (\<lparr>StatusCode = 200, RespBody = Inr []\<rparr>,
                     fold (\<lambda>(key, val) cnode. cacheNode_set cnode key rank val) kv cnode)))
      | DELETE \<Rightarrow>
          (let key = query ''key''
           in (\<lparr>StatusCode = 200, RespBody = Inr []\<rparr>, cacheNode_remove cnode key))
      | OtherMethod \<Rightarrow> (\<lparr>StatusCode = 405, RespBody = Inr []\<rparr>, cnode))"

section \<open>The dispatcher (distributedCache.go)\<close>

text \<open>
  The HTTP client (\<open>net/http\<close>) is the environment of the dispatcher, over a state
  \<open>'w\<close> of the world outside the process: \<open>NewRequest_error\<close> is the error of
  \<open>http.NewRequest\<close> for a URL, if it has one, and \<open>Do\<close> sends a request and returns
  a transport error or the response. \<open>client.Get\<close> and \<open>client.Post\<close> are \<open>Do\<close> on
  the request they build.
\<close>

record 'w http =
  NewRequest_error :: "string \<Rightarrow> error option"
  Do :: "request \<Rightarrow> 'w \<Rightarrow> (error + response) \<times> 'w"

text \<open>\<open>fmt.Sprintf("%d", i)\<close>.\<close>

function decimal :: "nat \<Rightarrow> string" where
  "decimal n =
     (if n < 10 then [''0123456789'' ! n] else decimal (n div 10) @ [''0123456789'' ! (n mod 10)])"
  by pat_completeness auto
termination
  by (relation "measure id") auto

definition Sprintf_d :: "int \<Rightarrow> string" where
  "Sprintf_d i = (if i < 0 then CHR ''-'' # decimal (nat (- i)) else decimal (nat i))"

definition createURL :: "cacheNode \<Rightarrow> string \<Rightarrow> string" where
  "createURL cnode key =
     ''https://'' @ IP cnode @ '':'' @ Port cnode @ ''?id='' @ ID cnode @ ''&key='' @ key"

definition createURLForSet :: "cacheNode \<Rightarrow> string \<Rightarrow> int \<Rightarrow> string" where
  "createURLForSet cnode key rank =
     ''https://'' @ IP cnode @ '':'' @ Port cnode @ ''?id='' @ ID cnode @ ''&copy='' @ Sprintf_d rank"

definition getFromNode ::
  "'w http \<Rightarrow> cacheNode \<Rightarrow> string \<Rightarrow> 'w \<Rightarrow> (error + byte list) \<times> 'w" where
  "getFromNode env cnode key w =
     (let url = createURL cnode key;
          (r, w) = Do env \<lparr>Method = GET, URL = url, ReqBody = None\<rparr> w;
          failed = Error (''failed to get key: '' @ key @ '' from '' @ ID cnode)
      in case r of
           Inl err \<Rightarrow> (Inl failed, w)
         | Inr resp \<Rightarrow>
             (if StatusCode resp \<noteq> 200 then (Inl failed, w)
              else (case RespBody resp of
                      Inl (Error msg) \<Rightarrow>
                        (Inl (Error (''failed to read response body: '' @ msg)), w)
                    | Inr val \<Rightarrow> (Inr val, w))))"

text \<open>
  The loops of \<open>get\<close> and \<open>set\<close> over the replicas. Each reads \<open>node.ID\<close> for its log
  line before the request, which panics on a nil node.
\<close>

fun get_range ::
  "'w http \<Rightarrow> string \<Rightarrow> cacheNode option list \<Rightarrow> 'w \<Rightarrow> (panic + byte list \<times> bool) \<times> 'w" where
  "get_range env key [] w = (Inr ([], False), w)"
| "get_range env key (node # rest) w =
     (case node of
        None \<Rightarrow> (Inl NilDereference, w)
      | Some cnode \<Rightarrow>
          (let (r, w) = getFromNode env cnode key w
           in case r of
                Inl err \<Rightarrow> get_range env key rest w
              | Inr val \<Rightarrow> (Inr (val, True), w)))"

definition cache_get ::
  "distributedCache \<Rightarrow> 'w http \<Rightarrow> string \<Rightarrow> 'w \<Rightarrow> (panic + byte list \<times> bool) \<times> 'w" where
  "cache_get cache env key w =
     (case getNodes (hashRing cache) key (redundancy cache) of
        Inl p \<Rightarrow> (Inl p, w)
      | Inr ns \<Rightarrow> get_range env key ns w)"

definition setToNode ::
  "'w http \<Rightarrow> cacheNode \<Rightarrow> int \<Rightarrow> string \<Rightarrow> byte list \<Rightarrow> 'w \<Rightarrow> error option \<times> 'w" where
  "setToNode env cnode rank key val w =
     (let url = createURLForSet cnode key rank;
          (r, w) = Do env \<lparr>Method = POST, URL = url, ReqBody = Some [(key, val)]\<rparr> w
      in case r of
           Inl err \<Rightarrow> (Some err, w)
         | Inr resp \<Rightarrow> (None, w))"

fun set_range ::
  "'w http \<Rightarrow> string \<Rightarrow> byte list \<Rightarrow> nat \<Rightarrow> cacheNode option list \<Rightarrow> error option \<Rightarrow> 'w
     \<Rightarrow> (panic + error option) \<times> 'w" where
  "set_range env key val idx [] err w = (Inr err, w)"
| "set_range env key val idx (node # rest) err w =
     (case node of
        None \<Rightarrow> (Inl NilDereference, w)
      | Some cnode \<Rightarrow>
          (let (err, w) = setToNode env cnode (int idx - 1) key val w
           in if err = None then (Inr err, w)
              else set_range env key val (idx + 1) rest err w))"

definition cache_set ::
  "distributedCache \<Rightarrow> 'w http \<Rightarrow> string \<Rightarrow> byte list \<Rightarrow> 'w \<Rightarrow> (panic + error option) \<times> 'w" where
  "cache_set cache env key val w =
     (case getNodes (hashRing cache) key (redundancy cache) of
        Inl p \<Rightarrow> (Inl p, w)
      | Inr ns \<Rightarrow> set_range env key val 0 ns None w)"

definition cache_remove ::
  "distributedCache \<Rightarrow> 'w http \<Rightarrow> string \<Rightarrow> 'w \<Rightarrow> (panic + bool) \<times> 'w" where
  "cache_remove cache env key w =
     (case getNode (hashRing cache) key of
        Inl p \<Rightarrow> (Inl p, w)
      | Inr None \<Rightarrow> (Inl NilDereference, w)
      | Inr (Some node) \<Rightarrow>
          (let url = createURL node key
           in case NewRequest_error env url of
                Some err \<Rightarrow> (Inr False, w)
              | None \<Rightarrow>
                  (let (r, w) = Do env \<lparr>Method = DELETE, URL = url, ReqBody = None\<rparr> w
                   in case r of
                        Inl err \<Rightarrow> (Inr False, w)
                      | Inr resp \<Rightarrow>
                          (case RespBody resp of
                             Inl err \<Rightarrow> (Inr False, w)
                           | Inr _ \<Rightarrow> (Inr True, w)))))"

section \<open>Environments\<close>

text \<open>An environment that also keeps the list of the requests sent, in order.\<close>

definition recording :: "'w http \<Rightarrow> ('w \<times> request list) http" where
  "recording env =
     \<lparr>NewRequest_error = NewRequest_error env,
      Do = (\<lambda>req (w, sent). let (r, w) = Do env req w in (r, (w, sent @ [req])))\<rparr>"

text \<open>
  Two environments without a state of their own: every request is answered with the
  given status code and an empty body; and no request reaches a server.
\<close>

definition answering :: "nat \<Rightarrow> unit http" where
  "answering code =
     \<lparr>NewRequest_error = (\<lambda>url. None),
      Do = (\<lambda>req w. (Inr \<lparr>StatusCode = code, RespBody = Inr []\<rparr>, w))\<rparr>"

definition unreachable :: "unit http" where
  "unreachable =
     \<lparr>NewRequest_error = (\<lambda>url. None),
      Do = (\<lambda>req w. (Inl (Error ''connection refused''), w))\<rparr>"

text \<open>
  A network of peers of this program: the node that serves each address
  (\<open>Addr: cnode.IP + ":" + cnode.Port\<close>), each answering with \<open>ServeHTTP\<close>. How the
  client reads the address and the query out of a URL (\<open>net/url\<close>) is a parameter.
\<close>

record parsed_url =
  Host :: string
  Query :: "string \<Rightarrow> string"

type_synonym network = "string \<rightharpoonup> cacheNode"

definition peer_Do ::
  "(string \<Rightarrow> parsed_url option) \<Rightarrow> request \<Rightarrow> network \<Rightarrow> (error + response) \<times> network" where
  "peer_Do parse req net =
     (case parse (URL req) of
        None \<Rightarrow> (Inl (Error ''invalid URL''), net)
      | Some u \<Rightarrow>
          (case net (Host u) of
             None \<Rightarrow> (Inl (Error ''connection refused''), net)
           | Some cnode \<Rightarrow>
               (let (resp, cnode) = ServeHTTP cnode (Method req) (Query u) (ReqBody req)
                in (Inr resp, net(Host u \<mapsto> cnode)))))"

definition peers :: "(string \<Rightarrow> parsed_url option) \<Rightarrow> network http" where
  "peers parse =
     \<lparr>NewRequest_error = (\<lambda>url. if parse url = None then Some (Error ''invalid URL'') else None),
      Do = peer_Do parse\<rparr>"

section \<open>Reachable states and invariants\<close>

text \<open>The mutating operations of the ring, and the rings they build from the new ring.\<close>

datatype ring_op = RingAdd nodeInfo | RingRemove string

fun ring_step :: "hashRing \<Rightarrow> ring_op \<Rightarrow> hashRing" where
  "ring_step ring (RingAdd node) = ring_addNode ring node"
| "ring_step ring (RingRemove nodeID) = ring_removeNode ring nodeID"

definition ring_run :: "ring_op list \<Rightarrow> hashRing" where
  "ring_run ops = foldl ring_step NewHashRing ops"

text \<open>
  The invariant of the ring: the hashes ascend strictly, they are the keys of \<open>nodeMap\<close>,
  and every node is stored under the hash of its ID.
\<close>

definition ring_inv :: "hashRing \<Rightarrow> bool" where
  "ring_inv ring \<longleftrightarrow>
     sorted_wrt (<) (sortedHashes ring) \<and>
     set (sortedHashes ring) = dom (nodeMap ring) \<and>
     (\<forall>h n. nodeMap ring h = Some n \<longrightarrow> ringHash (ID n) = h)"

text \<open>
  The mutating operations of the cache (\<open>addNode\<close> with the clock it reads, and
  \<open>removeNode_unlocked\<close>), and the caches they build from the new cache.
\<close>

datatype cache_op = CacheAdd nodeInfo time | CacheRemove string

fun cache_step :: "distributedCache \<Rightarrow> cache_op \<Rightarrow> distributedCache" where
  "cache_step cache (CacheAdd node now) = cache_addNode cache node now"
| "cache_step cache (CacheRemove nodeID) = removeNode_unlocked cache nodeID"

definition cache_run :: "int \<Rightarrow> cache_op list \<Rightarrow> distributedCache" where
  "cache_run r ops = foldl cache_step (newDistributedCache r) ops"





section \<open>Example peers\<close>

text \<open>
  The IDs \<open>gnu\<close> and \<open>codding\<close> have the same CRC-32, \<open>0x69c8c72d\<close>; \<open>node1\<close> and
  \<open>node2\<close> are IDs of the repository's tests.
\<close>

definition peer_gnu :: nodeInfo where
  "peer_gnu = \<lparr>ID = ''gnu'', IP = ''10.0.0.1'', Port = ''8081'', GroupID = ''A''\<rparr>"

definition peer_codding :: nodeInfo where
  "peer_codding = \<lparr>ID = ''codding'', IP = ''10.0.0.2'', Port = ''8082'', GroupID = ''A''\<rparr>"

definition peer_node1 :: nodeInfo where
  "peer_node1 = \<lparr>ID = ''node1'', IP = ''127.0.0.1'', Port = ''8081'', GroupID = ''A''\<rparr>"

definition peer_node2 :: nodeInfo where
  "peer_node2 = \<lparr>ID = ''node2'', IP = ''127.0.0.1'', Port = ''8082'', GroupID = ''A''\<rparr>"

text \<open>A peer of another group.\<close>

definition peer_node3 :: nodeInfo where
  "peer_node3 = \<lparr>ID = ''node3'', IP = ''127.0.0.1'', Port = ''8083'', GroupID = ''B''\<rparr>"

text \<open>
  A network of two peers, \<open>gnu\<close> and \<open>node1\<close>, which both store \<open>key1\<close>, and the
  reading of the one URL the example sends.
\<close>

definition example_network :: network where
  "example_network =
     [''10.0.0.1:8081'' \<mapsto> cacheNode_set (newCacheNode peer_gnu) ''key1'' (- 1) [1, 2, 3],
      ''127.0.0.1:8081'' \<mapsto> cacheNode_set (newCacheNode peer_node1) ''key1'' 0 [1, 2, 3]]"

definition example_parse :: "string \<Rightarrow> parsed_url option" where
  "example_parse url =
     (if url = ''https://10.0.0.1:8081?id=gnu&key=key1''
      then Some \<lparr>Host = ''10.0.0.1:8081'',
                  Query = (\<lambda>name. if name = ''id'' then ''gnu''
                                  else if name = ''key'' then ''key1'' else [])\<rparr>
      else None)"

section \<open>Loops and searches\<close>

declare search_loop.simps [simp del] getNodes_loop.simps [simp del] decimal.simps [simp del]

lemma search_loop_stop: "\<not> i < j \<Longrightarrow> search_loop f i j = i"
  by (subst search_loop.simps) simp

lemma search_loop_right:
  "i < j \<Longrightarrow> \<not> f ((i + j) div 2) \<Longrightarrow> search_loop f i j = search_loop f ((i + j) div 2 + 1) j"
  by (subst search_loop.simps) (simp add: Let_def)

lemma search_loop_left:
  "i < j \<Longrightarrow> f ((i + j) div 2) \<Longrightarrow> search_loop f i j = search_loop f i ((i + j) div 2)"
  by (subst search_loop.simps) (simp add: Let_def)

lemma search_loop_bounds: "i \<le> j \<Longrightarrow> i \<le> search_loop f i j \<and> search_loop f i j \<le> j"
proof (induction f i j rule: search_loop.induct)
  case (1 f i j)
  show ?case
  proof (cases "i < j")
    case False
    with "1.prems" show ?thesis by (simp add: search_loop_stop)
  next
    case True
    let ?h = "(i + j) div 2"
    from True have h: "i \<le> ?h" "?h < j" by auto
    show ?thesis
    proof (cases "f ?h")
      case True
      with "1.IH"(2) [OF \<open>i < j\<close> refl] h
      have "i \<le> search_loop f i ?h \<and> search_loop f i ?h \<le> ?h" by simp
      with True \<open>i < j\<close> h show ?thesis
        by (simp add: search_loop_left)
    next
      case False
      with "1.IH"(1) [OF \<open>i < j\<close> refl] h
      have "?h + 1 \<le> search_loop f (?h + 1) j \<and> search_loop f (?h + 1) j \<le> j" by simp
      with False \<open>i < j\<close> h show ?thesis
        by (simp add: search_loop_right)
    qed
  qed
qed

lemma sort_Search_le: "sort_Search n f \<le> n"
  using search_loop_bounds [of 0 n f] by (simp add: sort_Search_def)

lemma sort_Search_0: "sort_Search 0 f = 0"
  using sort_Search_le [of 0 f] by simp

lemma getNodes_loop_done: "\<not> 0 < r \<Longrightarrow> getNodes_loop ring m idx r acc = Inr acc"
  by (subst getNodes_loop.simps) simp

lemma getNodes_loop_break:
  "0 < r \<Longrightarrow> clockwise ring idx = m \<Longrightarrow> getNodes_loop ring m idx r acc = Inr acc"
  by (subst getNodes_loop.simps) (simp add: Let_def)

lemma getNodes_loop_step:
  "0 < r \<Longrightarrow> clockwise ring idx \<noteq> m \<Longrightarrow> clockwise ring idx < length (sortedHashes ring) \<Longrightarrow>
   getNodes_loop ring m idx r acc =
     getNodes_loop ring m (clockwise ring idx) (r - 1)
       (acc @ [nodeMap ring (sortedHashes ring ! clockwise ring idx)])"
  by (subst getNodes_loop.simps) (simp add: Let_def index_def)

lemma clockwise_less: "sortedHashes ring \<noteq> [] \<Longrightarrow> clockwise ring idx < length (sortedHashes ring)"
  by (simp add: clockwise_def)

lemma getNodes_loop_total:
  "sortedHashes ring \<noteq> [] \<Longrightarrow> \<exists>ns. getNodes_loop ring m idx r acc = Inr ns"
proof (induction "nat r" arbitrary: r idx acc)
  case 0
  then show ?case by (simp add: getNodes_loop_done)
next
  case (Suc k)
  then have r: "0 < r" "k = nat (r - 1)" by auto
  show ?case
  proof (cases "clockwise ring idx = m")
    case True
    with r show ?thesis by (simp add: getNodes_loop_break)
  next
    case False
    with r clockwise_less [OF Suc.prems] Suc.hyps(1) [OF r(2) Suc.prems] show ?thesis
      by (simp add: getNodes_loop_step)
  qed
qed

text \<open>
  C10. On an empty ring \<open>getNode\<close> and \<open>getNodes\<close> return no error value: both read
  \<open>sortedHashes[0]\<close> of an empty slice and panic with an index out of range. On a ring
  that is not empty both return.
\<close>

theorem empty_ring_panics:
  "(sortedHashes ring = [] \<longrightarrow>
      getNode ring key = Inl IndexOutOfRange \<and> getNodes ring key r = Inl IndexOutOfRange) \<and>
   (sortedHashes ring \<noteq> [] \<longrightarrow>
      (\<exists>n. getNode ring key = Inr n) \<and> (\<exists>ns. getNodes ring key r = Inr ns))"
proof (intro conjI impI)
  assume e: "sortedHashes ring = []"
  show "getNode ring key = Inl IndexOutOfRange"
    by (simp add: getNode_def e sort_Search_0 index_def)
  show "getNodes ring key r = Inl IndexOutOfRange"
    by (simp add: getNodes_def e sort_Search_0 index_def)
next
  assume ne: "sortedHashes ring \<noteq> []"
  let ?n = "length (sortedHashes ring)"
  let ?s = "sort_Search ?n (\<lambda>i. sortedHashes ring ! i \<ge> ringHash key)"
  let ?i = "if ?s = ?n then 0 else ?s"
  from ne sort_Search_le [of ?n] have "?i < ?n"
    by (auto simp: le_less)
  then have ix: "index (sortedHashes ring) ?i = Inr (sortedHashes ring ! ?i)"
    by (simp add: index_def)
  show "\<exists>n. getNode ring key = Inr n"
    using ix by (simp add: getNode_def Let_def)
  show "\<exists>ns. getNodes ring key r = Inr ns"
    using ix getNodes_loop_total [OF ne] by (simp add: getNodes_def Let_def)
qed

theorem empty_ring_panics_witness:
  "sortedHashes NewHashRing = [] \<and>
   getNode NewHashRing ''key1'' = Inl IndexOutOfRange \<and>
   getNodes NewHashRing ''key1'' 1 = Inl IndexOutOfRange"
  using empty_ring_panics [of NewHashRing "''key1''" 1]
  by (simp add: NewHashRing_def)

section \<open>Evaluating the CRC\<close>

lemma funpow8: "(f ^^ 8) x = f (f (f (f (f (f (f (f x)))))))"
  by (simp add: eval_nat_numeral)

lemma not32: "NOT (c :: 32 word) = c XOR 0xffffffff"
proof -
  have "(0xffffffff :: 32 word) = - 1" by simp
  then show ?thesis by (simp only: bit.xor_one_right)
qed

lemma ringHash_eval:
  "ringHash s = simpleUpdate_loop 0xffffffff (map of_char s) XOR 0xffffffff"
proof -
  have "NOT (0 :: 32 word) = 0xffffffff" by simp
  then show ?thesis
    unfolding ringHash_def byteslice_def ChecksumIEEE_def simpleUpdate_def
    by (simp only: not32)
qed

lemmas crc_eval = ringHash_eval update_byte_def simpleMakeTable_def funpow8 crc_round_def IEEE_def

lemma ringHash_gnu: "ringHash ''gnu'' = 0x69c8c72d"
  by (simp add: crc_eval)

lemma ringHash_codding: "ringHash ''codding'' = 0x69c8c72d"
  by (simp add: crc_eval)

lemma ringHash_node1: "ringHash ''node1'' = 0x85ef2540"
  by (simp add: crc_eval)

lemma ringHash_node2: "ringHash ''node2'' = 0x1ce674fa"
  by (simp add: crc_eval)

lemma ringHash_key1: "ringHash ''key1'' = 0x2c5c6450"
  by (simp add: crc_eval)

lemmas ringHash_examples = ringHash_gnu ringHash_codding ringHash_node1 ringHash_node2 ringHash_key1

section \<open>The ring invariant\<close>

lemma ring_inv_New: "ring_inv NewHashRing"
  by (simp add: ring_inv_def NewHashRing_def)

lemma ID_newCacheNode: "ID (newCacheNode node) = ID node"
  by (simp add: newCacheNode_def nodeInfo.defs cacheNode.defs)

lemma ring_inv_addNode: "ring_inv ring \<Longrightarrow> ring_inv (ring_addNode ring node)"
proof -
  assume inv: "ring_inv ring"
  let ?h = "ringHash (ID node)"
  show ?thesis
  proof (cases "nodeMap ring ?h = None")
    case False
    with inv show ?thesis by (simp add: ring_addNode_def)
  next
    case True
    with inv have notin: "?h \<notin> set (sortedHashes ring)"
      by (auto simp: ring_inv_def)
    from inv have "sorted (sortedHashes ring)" "distinct (sortedHashes ring)"
      by (simp_all add: ring_inv_def strict_sorted_iff)
    with notin have "sorted_wrt (<) (sort (sortedHashes ring @ [?h]))"
      by (simp add: strict_sorted_iff)
    with True inv show ?thesis
      by (auto simp: ring_addNode_def ring_inv_def Let_def ID_newCacheNode)
  qed
qed

lemma ring_inv_removeNode: "ring_inv ring \<Longrightarrow> ring_inv (ring_removeNode ring nodeID)"
proof -
  assume inv: "ring_inv ring"
  let ?h = "ringHash nodeID"
  from inv have sd: "sorted (sortedHashes ring)" "distinct (sortedHashes ring)"
    by (simp_all add: ring_inv_def strict_sorted_iff)
  then have "sorted_wrt (<) (remove1 ?h (sortedHashes ring))"
    by (simp add: strict_sorted_iff sorted_remove1)
  moreover from sd inv have "set (remove1 ?h (sortedHashes ring)) = dom ((nodeMap ring)(?h := None))"
    by (auto simp: ring_inv_def)
  ultimately show ?thesis using inv
    by (auto simp: ring_removeNode_def ring_inv_def Let_def)
qed

lemma ring_inv_step: "ring_inv ring \<Longrightarrow> ring_inv (ring_step ring op)"
  by (cases op) (simp_all add: ring_inv_addNode ring_inv_removeNode)

lemma ring_inv_run: "ring_inv (ring_run ops)"
  unfolding ring_run_def
  by (induction ops rule: rev_induct) (simp_all add: ring_inv_New ring_inv_step)

lemma ring_addNode_present:
  "nodeMap ring (ringHash (ID node)) \<noteq> None \<Longrightarrow> ring_addNode ring node = ring"
  by (simp add: ring_addNode_def)

text \<open>
  C9. After every sequence of \<open>addNode\<close> and \<open>removeNode\<close> on the new ring,
  \<open>sortedHashes\<close> ascends strictly and its elements are the keys of \<open>nodeMap\<close>; and
  \<open>addNode\<close> of a node whose hash is already a key leaves the ring as it is.
\<close>

theorem ring_hashes_ascend:
  "sorted_wrt (<) (sortedHashes (ring_run ops)) \<and>
   set (sortedHashes (ring_run ops)) = dom (nodeMap (ring_run ops)) \<and>
   (\<forall>node. nodeMap (ring_run ops) (ringHash (ID node)) \<noteq> None \<longrightarrow>
      ring_addNode (ring_run ops) node = ring_run ops)"
  using ring_inv_run [of ops] by (simp add: ring_inv_def ring_addNode_present)

theorem ring_hashes_ascend_witness:
  "nodeMap (ring_run [RingAdd peer_node1, RingAdd peer_gnu, RingAdd peer_node2, RingRemove ''node2''])
     (ringHash (ID peer_codding)) \<noteq> None \<and>
   ring_addNode (ring_run [RingAdd peer_node1, RingAdd peer_gnu, RingAdd peer_node2, RingRemove ''node2'']) peer_codding
     = ring_run [RingAdd peer_node1, RingAdd peer_gnu, RingAdd peer_node2, RingRemove ''node2''] \<and>
   sortedHashes (ring_run [RingAdd peer_node1, RingAdd peer_gnu, RingAdd peer_node2, RingRemove ''node2''])
     = [0x69c8c72d, 0x85ef2540]"
proof -
  let ?ops = "[RingAdd peer_node1, RingAdd peer_gnu, RingAdd peer_node2, RingRemove ''node2'']"
  have present: "nodeMap (ring_run ?ops) (ringHash (ID peer_codding)) \<noteq> None"
    by (simp add: ring_run_def ring_addNode_def ring_removeNode_def NewHashRing_def Let_def
        peer_node1_def peer_gnu_def peer_node2_def peer_codding_def ringHash_examples)
  have hashes: "sortedHashes (ring_run ?ops) = [0x69c8c72d, 0x85ef2540]"
    by (simp add: ring_run_def ring_addNode_def ring_removeNode_def NewHashRing_def Let_def
        peer_node1_def peer_gnu_def peer_node2_def ringHash_examples)
  from ring_hashes_ascend [of ?ops] present hashes show ?thesis by blast
qed

section \<open>The primary of a key\<close>

lemma search_loop_least:
  assumes mono: "\<And>a b. a \<le> b \<Longrightarrow> b < n \<Longrightarrow> f a \<Longrightarrow> f b"
  shows "i \<le> j \<Longrightarrow> j \<le> n \<Longrightarrow> \<forall>k<i. \<not> f k \<Longrightarrow> \<forall>k. j \<le> k \<and> k < n \<longrightarrow> f k \<Longrightarrow>
         (\<forall>k < search_loop f i j. \<not> f k) \<and> (\<forall>k. search_loop f i j \<le> k \<and> k < n \<longrightarrow> f k)"
proof (induction "j - i" arbitrary: i j rule: less_induct)
  case less
  show ?case
  proof (cases "i < j")
    case False
    with less.prems show ?thesis by (simp add: search_loop_stop)
  next
    case True
    let ?h = "(i + j) div 2"
    from True have h: "i \<le> ?h" "?h < j" by auto
    show ?thesis
    proof (cases "f ?h")
      case True
      have up: "\<forall>k. ?h \<le> k \<and> k < n \<longrightarrow> f k"
        using mono [of ?h] True by blast
      have "(\<forall>k < search_loop f i ?h. \<not> f k) \<and> (\<forall>k. search_loop f i ?h \<le> k \<and> k < n \<longrightarrow> f k)"
        using less.prems h up by (intro less.hyps) auto
      with True \<open>i < j\<close> show ?thesis by (simp add: search_loop_left)
    next
      case False
      have low: "\<forall>k < ?h + 1. \<not> f k"
      proof (intro allI impI)
        fix k assume "k < ?h + 1"
        then have "k \<le> ?h" by simp
        moreover from h less.prems have "?h < n" by simp
        ultimately show "\<not> f k" using mono [of k ?h] False by blast
      qed
      have "(\<forall>k < search_loop f (?h + 1) j. \<not> f k) \<and>
            (\<forall>k. search_loop f (?h + 1) j \<le> k \<and> k < n \<longrightarrow> f k)"
        using less.prems h low by (intro less.hyps) auto
      with False \<open>i < j\<close> show ?thesis by (simp add: search_loop_right)
    qed
  qed
qed

lemma sort_Search_sorted:
  assumes "sorted xs"
  shows "(\<forall>k < sort_Search (length xs) (\<lambda>i. xs ! i \<ge> h). xs ! k < h) \<and>
         (\<forall>k. sort_Search (length xs) (\<lambda>i. xs ! i \<ge> h) \<le> k \<and> k < length xs \<longrightarrow> h \<le> xs ! k)"
proof -
  have mono: "h \<le> xs ! b" if "a \<le> b" "b < length xs" "h \<le> xs ! a" for a b
  proof -
    from sorted_nth_mono [OF assms that(1,2)] have "xs ! a \<le> xs ! b" .
    with that(3) show ?thesis by (rule order_trans)
  qed
  have "(\<forall>k < search_loop (\<lambda>i. xs ! i \<ge> h) 0 (length xs). \<not> h \<le> xs ! k) \<and>
        (\<forall>k. search_loop (\<lambda>i. xs ! i \<ge> h) 0 (length xs) \<le> k \<and> k < length xs \<longrightarrow> h \<le> xs ! k)"
    by (rule search_loop_least [where n = "length xs"]) (use mono in auto)
  then show ?thesis by (simp add: sort_Search_def not_le)
qed

text \<open>The position \<open>getNode\<close> and \<open>getNodes\<close> start from.\<close>

lemma primary_position:
  fixes xs :: "'a::linorder list" and h :: 'a
  assumes "sorted xs" and "xs \<noteq> []"
  defines "s \<equiv> sort_Search (length xs) (\<lambda>i. xs ! i \<ge> h)"
  defines "idx \<equiv> (if s = length xs then 0 else s)"
  shows "idx < length xs"
    and "xs ! idx = (if \<exists>x\<in>set xs. h \<le> x then Min {x \<in> set xs. h \<le> x} else Min (set xs))"
proof -
  have sle: "s \<le> length xs" unfolding s_def by (rule sort_Search_le)
  with assms(2) show lt: "idx < length xs" by (auto simp: idx_def)
  from sort_Search_sorted [OF assms(1), of h]
  have below: "\<forall>k. k < s \<longrightarrow> xs ! k < h" and above: "\<forall>k. s \<le> k \<and> k < length xs \<longrightarrow> h \<le> xs ! k"
    by (simp_all add: s_def)
  show "xs ! idx = (if \<exists>x\<in>set xs. h \<le> x then Min {x \<in> set xs. h \<le> x} else Min (set xs))"
  proof (cases "s = length xs")
    case True
    with below have "\<not> (\<exists>x\<in>set xs. h \<le> x)"
      by (auto simp: in_set_conv_nth not_le)
    moreover have "Min (set xs) = xs ! 0"
    proof (rule Min_eqI)
      show "finite (set xs)" by simp
      show "xs ! 0 \<in> set xs" using assms(2) by simp
      fix y assume "y \<in> set xs"
      then obtain k where "k < length xs" "y = xs ! k" by (auto simp: in_set_conv_nth)
      then show "xs ! 0 \<le> y" using assms(1) sorted_nth_mono [of xs 0 k] by simp
    qed
    ultimately show ?thesis using True by (simp add: idx_def)
  next
    case False
    with sle have slt: "s < length xs" by simp
    with above have here: "h \<le> xs ! s" by simp
    with slt have ex: "\<exists>x\<in>set xs. h \<le> x" using nth_mem by blast
    have "Min {x \<in> set xs. h \<le> x} = xs ! s"
    proof (rule Min_eqI)
      show "finite {x \<in> set xs. h \<le> x}" by simp
      show "xs ! s \<in> {x \<in> set xs. h \<le> x}" using slt here by simp
      fix y assume "y \<in> {x \<in> set xs. h \<le> x}"
      then obtain k where k: "k < length xs" "y = xs ! k" "h \<le> y"
        by (auto simp: in_set_conv_nth)
      with below have "s \<le> k" by (metis not_le leD)
      with k show "xs ! s \<le> y" using assms(1) sorted_nth_mono [of xs s k] by simp
    qed
    with ex False show ?thesis by (simp add: idx_def)
  qed
qed

lemma ring_inv_sorted: "ring_inv ring \<Longrightarrow> sorted (sortedHashes ring)"
  by (simp add: ring_inv_def strict_sorted_iff)

lemma ring_inv_lookup:
  "ring_inv ring \<Longrightarrow> i < length (sortedHashes ring) \<Longrightarrow>
   \<exists>cnode. nodeMap ring (sortedHashes ring ! i) = Some cnode \<and>
           ringHash (ID cnode) = sortedHashes ring ! i"
proof -
  assume inv: "ring_inv ring" and i: "i < length (sortedHashes ring)"
  then have "sortedHashes ring ! i \<in> dom (nodeMap ring)"
    by (metis nth_mem ring_inv_def)
  then obtain cnode where "nodeMap ring (sortedHashes ring ! i) = Some cnode" by blast
  with inv show ?thesis by (auto simp: ring_inv_def)
qed

text \<open>
  C4. On a ring that is not empty \<open>getNode\<close> returns the node whose hash is the least
  hash of the ring that is at least the CRC-32 of the key, and the node of the least
  hash of the ring when there is none; it fails exactly on the empty ring.
\<close>

theorem getNode_primary:
  assumes "ring_inv ring"
  shows "((\<exists>p. getNode ring key = Inl p) \<longleftrightarrow> sortedHashes ring = []) \<and>
         (sortedHashes ring \<noteq> [] \<longrightarrow>
            (\<exists>cnode. getNode ring key = Inr (Some cnode) \<and>
               nodeMap ring (ringHash (ID cnode)) = Some cnode \<and>
               ringHash (ID cnode) =
                 (if \<exists>h\<in>set (sortedHashes ring). ringHash key \<le> h
                  then Min {h \<in> set (sortedHashes ring). ringHash key \<le> h}
                  else Min (set (sortedHashes ring)))))"
proof -
  let ?xs = "sortedHashes ring"
  let ?s = "sort_Search (length ?xs) (\<lambda>i. ?xs ! i \<ge> ringHash key)"
  let ?idx = "if ?s = length ?xs then 0 else ?s"
  have nonempty: "\<exists>cnode. getNode ring key = Inr (Some cnode) \<and>
       nodeMap ring (ringHash (ID cnode)) = Some cnode \<and>
       ringHash (ID cnode) =
         (if \<exists>h\<in>set ?xs. ringHash key \<le> h then Min {h \<in> set ?xs. ringHash key \<le> h}
          else Min (set ?xs))" if ne: "?xs \<noteq> []"
  proof -
    note pos = primary_position [OF ring_inv_sorted [OF assms] ne, of "ringHash key"]
    from ring_inv_lookup [OF assms pos(1)] obtain cnode
      where c: "nodeMap ring (?xs ! ?idx) = Some cnode" "ringHash (ID cnode) = ?xs ! ?idx"
      by blast
    from pos(1) c(1) have "getNode ring key = Inr (Some cnode)"
      by (simp add: getNode_def Let_def index_def)
    with c pos(2) show ?thesis by simp
  qed
  have empty: "getNode ring key = Inl IndexOutOfRange" if "?xs = []"
    using that by (simp add: getNode_def sort_Search_0 index_def)
  from nonempty empty show ?thesis by (cases "?xs = []") auto
qed

theorem getNode_primary_witness:
  "ring_inv (ring_run [RingAdd peer_node1, RingAdd peer_gnu]) \<and>
   getNode (ring_run [RingAdd peer_node1, RingAdd peer_gnu]) ''key1'' = Inr (Some (newCacheNode peer_gnu)) \<and>
   ringHash (ID (newCacheNode peer_gnu)) =
     Min {h \<in> set (sortedHashes (ring_run [RingAdd peer_node1, RingAdd peer_gnu])). ringHash ''key1'' \<le> h}"
proof -
  let ?ring = "ring_run [RingAdd peer_node1, RingAdd peer_gnu]"
  have ring: "?ring = \<lparr>nodes = [newCacheNode peer_node1, newCacheNode peer_gnu],
      sortedHashes = [0x69c8c72d, 0x85ef2540],
      nodeMap = [0x85ef2540 \<mapsto> newCacheNode peer_node1, 0x69c8c72d \<mapsto> newCacheNode peer_gnu]\<rparr>"
    by (simp add: ring_run_def ring_addNode_def NewHashRing_def Let_def
        peer_node1_def peer_gnu_def ringHash_examples)
  have inv: "ring_inv ?ring"
    unfolding ring
    by (simp add: ring_inv_def ID_newCacheNode peer_node1_def peer_gnu_def ringHash_examples)
  have here: "getNode ?ring ''key1'' = Inr (Some (newCacheNode peer_gnu))"
    unfolding ring
    by (simp add: getNode_def sort_Search_def search_loop.simps index_def ringHash_examples)
  have ex: "\<exists>h\<in>set (sortedHashes ?ring). ringHash ''key1'' \<le> h"
    unfolding ring by (simp add: ringHash_examples)
  from getNode_primary [OF inv, of "''key1''"] here ex inv show ?thesis
    unfolding ring by auto
qed

section \<open>The replicas of a key\<close>

lemma clockwise_mod:
  assumes "0 < length (sortedHashes ring)" and "idx = (m + k) mod length (sortedHashes ring)"
  shows "clockwise ring idx = (m + Suc k) mod length (sortedHashes ring)"
proof -
  let ?n = "length (sortedHashes ring)"
  have "(Suc (m + k)) mod ?n = (if Suc ((m + k) mod ?n) = ?n then 0 else Suc ((m + k) mod ?n))"
    by (rule mod_Suc)
  moreover have "(m + k) mod ?n < ?n" using assms(1) by simp
  ultimately show ?thesis using assms(2) by (auto simp: clockwise_def)
qed

lemma offset_mod_neq:
  assumes "m < n" and "0 < d" and "d < (n::nat)"
  shows "(m + d) mod n \<noteq> m"
proof (cases "m + d < n")
  case True
  with assms show ?thesis by simp
next
  case False
  then have "n \<le> m + d" by simp
  then have "(m + d) mod n = (m + d - n) mod n" by (rule le_mod_geq)
  also from assms False have "\<dots> = m + d - n" by simp
  finally have "(m + d) mod n = m + d - n" .
  with assms \<open>n \<le> m + d\<close> show ?thesis by arith
qed

lemma offset_mod_inj:
  assumes "i < j" and "j < (n::nat)"
  shows "(m + i) mod n \<noteq> (m + j) mod n"
proof
  assume eq: "(m + i) mod n = (m + j) mod n"
  from assms have "0 < j - i" "j - i < n" by simp_all
  from offset_mod_neq [OF _ this, of "(m + i) mod n"] assms
  have "((m + i) mod n + (j - i)) mod n \<noteq> (m + i) mod n" by simp
  moreover have "((m + i) mod n + (j - i)) mod n = (m + i + (j - i)) mod n"
    by (simp add: mod_add_left_eq)
  moreover from assms have "m + i + (j - i) = m + j" by simp
  ultimately show False using eq by simp
qed

lemma getNodes_loop_walk:
  assumes "m < length (sortedHashes ring)"
  shows "k < length (sortedHashes ring) \<Longrightarrow> idx = (m + k) mod length (sortedHashes ring) \<Longrightarrow>
         getNodes_loop ring m idx r acc =
           Inr (acc @ map (\<lambda>j. nodeMap ring (sortedHashes ring ! ((m + j) mod length (sortedHashes ring))))
                        [Suc k ..< min (length (sortedHashes ring)) (Suc k + nat r)])"
proof (induction "nat r" arbitrary: r idx k acc)
  case 0
  then show ?case by (simp add: getNodes_loop_done)
next
  case (Suc q)
  let ?n = "length (sortedHashes ring)"
  let ?f = "\<lambda>j. nodeMap ring (sortedHashes ring ! ((m + j) mod ?n))"
  from Suc.hyps(2) have r: "0 < r" "q = nat (r - 1)" "nat r = Suc (nat (r - 1))" by auto
  from assms have n: "0 < ?n" by (cases "sortedHashes ring") simp_all
  have cw: "clockwise ring idx = (m + Suc k) mod ?n"
    using clockwise_mod [OF n Suc.prems(2)] .
  show ?case
  proof (cases "Suc k = ?n")
    case True
    with cw assms have "clockwise ring idx = m" by simp
    with r(1) True show ?thesis by (simp add: getNodes_loop_break)
  next
    case False
    with Suc.prems(1) have lt: "Suc k < ?n" by simp
    from offset_mod_neq [OF assms _ lt] cw have ne: "clockwise ring idx \<noteq> m" by simp
    have "clockwise ring idx < ?n" using cw n by simp
    with r(1) ne have "getNodes_loop ring m idx r acc =
        getNodes_loop ring m (clockwise ring idx) (r - 1) (acc @ [?f (Suc k)])"
      by (simp add: getNodes_loop_step cw)
    also have "\<dots> = Inr ((acc @ [?f (Suc k)]) @
        map ?f [Suc (Suc k) ..< min ?n (Suc (Suc k) + nat (r - 1))])"
      by (rule Suc.hyps(1) [OF r(2) lt cw])
    also have "[Suc k ..< min ?n (Suc k + nat r)] =
        Suc k # [Suc (Suc k) ..< min ?n (Suc (Suc k) + nat (r - 1))]"
      using lt r(3) by (simp add: upt_conv_Cons)
    then have "(acc @ [?f (Suc k)]) @ map ?f [Suc (Suc k) ..< min ?n (Suc (Suc k) + nat (r - 1))] =
        acc @ map ?f [Suc k ..< min ?n (Suc k + nat r)]"
      by simp
    finally show ?thesis .
  qed
qed

text \<open>
  C3. On a ring that is not empty, for a redundancy \<open>r \<ge> 0\<close>, \<open>getNodes\<close> returns
  \<open>min (ring size) (r + 1)\<close> nodes with distinct IDs, the nodes at consecutive
  positions of the ring from the position of the primary on, wrapping round; the first
  is the node \<open>getNode\<close> returns.
\<close>

theorem getNodes_replicas:
  assumes "ring_inv ring" and "sortedHashes ring \<noteq> []" and "0 \<le> r"
  shows "\<exists>ns. getNodes ring key r = Inr (map Some ns) \<and>
           length ns = min (length (sortedHashes ring)) (nat r + 1) \<and>
           distinct (map ID ns) \<and>
           getNode ring key = Inr (Some (ns ! 0)) \<and>
           (\<exists>p < length (sortedHashes ring). \<forall>i < length ns.
              nodeMap ring (sortedHashes ring ! ((p + i) mod length (sortedHashes ring))) = Some (ns ! i))"
proof -
  let ?xs = "sortedHashes ring"
  let ?n = "length ?xs"
  define p where
    "p = (if sort_Search ?n (\<lambda>i. ?xs ! i \<ge> ringHash key) = ?n then 0
          else sort_Search ?n (\<lambda>i. ?xs ! i \<ge> ringHash key))"
  let ?f = "\<lambda>j. nodeMap ring (?xs ! ((p + j) mod ?n))"
  let ?L = "min ?n (nat r + 1)"
  define ns where "ns = map (\<lambda>j. the (?f j)) [0 ..< ?L]"
  from assms(2) have n: "0 < ?n" by simp
  have p: "p < ?n"
    unfolding p_def
    using primary_position(1) [OF ring_inv_sorted [OF assms(1)] assms(2)] .
  have some: "Some (the (?f j)) = ?f j"
    and hash: "ringHash (ID (the (?f j))) = ?xs ! ((p + j) mod ?n)" for j
  proof -
    have "(p + j) mod ?n < ?n" using n by simp
    from ring_inv_lookup [OF assms(1) this]
    show "Some (the (?f j)) = ?f j" "ringHash (ID (the (?f j))) = ?xs ! ((p + j) mod ?n)"
      by auto
  qed
  have len: "length ns = ?L" by (simp add: ns_def)
  have nth: "ns ! i = the (?f i)" if "i < ?L" for i
    using that by (simp add: ns_def)
  have f0: "?f 0 = nodeMap ring (?xs ! p)" using p by simp
  have ix: "index ?xs p = Inr (?xs ! p)" using p by (simp add: index_def)
  have "getNodes ring key r = getNodes_loop ring p p r [nodeMap ring (?xs ! p)]"
    unfolding getNodes_def Let_def
    unfolding p_def [symmetric]
    by (simp add: ix)
  also have "\<dots> = Inr ([nodeMap ring (?xs ! p)] @ map ?f [Suc 0 ..< min ?n (Suc 0 + nat r)])"
  proof (rule getNodes_loop_walk [OF p])
    show "0 < ?n" by (rule n)
    show "p = (p + 0) mod ?n" using p by simp
  qed
  also have "[nodeMap ring (?xs ! p)] @ map ?f [Suc 0 ..< min ?n (Suc 0 + nat r)] = map ?f [0 ..< ?L]"
  proof -
    have "0 < ?L" using n by simp
    then have "[0 ..< ?L] = 0 # [Suc 0 ..< ?L]" by (rule upt_conv_Cons)
    then have "map ?f [0 ..< ?L] = ?f 0 # map ?f [Suc 0 ..< ?L]" by simp
    with f0 show ?thesis by simp
  qed
  also have "map ?f [0 ..< ?L] = map Some ns"
    using some by (simp add: ns_def)
  finally have nodes: "getNodes ring key r = Inr (map Some ns)" .
  have primary: "getNode ring key = Inr (Some (ns ! 0))"
  proof -
    have "0 < ?L" using n by simp
    from nth [OF this] some [of 0] f0 have "nodeMap ring (?xs ! p) = Some (ns ! 0)" by simp
    moreover have "getNode ring key = Inr (nodeMap ring (?xs ! p))"
      unfolding getNode_def Let_def
      unfolding p_def [symmetric]
      by (simp add: ix)
    ultimately show ?thesis by simp
  qed
  have walk: "\<forall>i < length ns. nodeMap ring (?xs ! ((p + i) mod ?n)) = Some (ns ! i)"
    using some nth len by simp
  have dist: "distinct (map ID ns)"
  proof -
    from assms(1) have dxs: "distinct ?xs" by (simp add: ring_inv_def strict_sorted_iff)
    have "ID (ns ! i) \<noteq> ID (ns ! j)" if "i < j" "j < ?L" for i j
    proof
      assume eq: "ID (ns ! i) = ID (ns ! j)"
      from that have "i < ?L" by (rule less_trans)
      from nth [OF this] nth [OF that(2)] eq have "ID (the (?f i)) = ID (the (?f j))" by simp
      then have "ringHash (ID (the (?f i))) = ringHash (ID (the (?f j)))" by simp
      then have "?xs ! ((p + i) mod ?n) = ?xs ! ((p + j) mod ?n)" by (simp only: hash)
      moreover have "(p + i) mod ?n < ?n" "(p + j) mod ?n < ?n" using n by simp_all
      ultimately have "(p + i) mod ?n = (p + j) mod ?n"
        using dxs by (simp add: nth_eq_iff_index_eq)
      moreover from that have "j < ?n" by simp
      ultimately show False using offset_mod_inj [OF that(1), of ?n p] by simp
    qed
    then have neq: "map ID ns ! i \<noteq> map ID ns ! j" if "i < j" "j < length ns" for i j
      using that len by simp
    show ?thesis
      unfolding distinct_conv_nth
    proof (intro allI impI)
      fix i j
      assume ij: "i < length (map ID ns)" "j < length (map ID ns)" "i \<noteq> j"
      then consider "i < j" | "j < i" by linarith
      then show "map ID ns ! i \<noteq> map ID ns ! j"
      proof cases
        case 1
        with ij neq [of i j] show ?thesis by simp
      next
        case 2
        with ij neq [of j i] show ?thesis by simp
      qed
    qed
  qed
  have inner: "\<exists>q < ?n. \<forall>i < length ns. nodeMap ring (?xs ! ((q + i) mod ?n)) = Some (ns ! i)"
    using p walk by blast
  show ?thesis
    by (rule exI [of _ ns]) (intro conjI nodes len dist primary inner)
qed

theorem getNodes_replicas_witness:
  "ring_inv (ring_run [RingAdd peer_node1, RingAdd peer_gnu, RingAdd peer_node2]) \<and>
   sortedHashes (ring_run [RingAdd peer_node1, RingAdd peer_gnu, RingAdd peer_node2]) \<noteq> [] \<and>
   (0::int) \<le> 5 \<and>
   getNodes (ring_run [RingAdd peer_node1, RingAdd peer_gnu, RingAdd peer_node2]) ''key1'' 5 =
     Inr (map Some [newCacheNode peer_gnu, newCacheNode peer_node1, newCacheNode peer_node2]) \<and>
   length [newCacheNode peer_gnu, newCacheNode peer_node1, newCacheNode peer_node2] =
     min (length (sortedHashes (ring_run [RingAdd peer_node1, RingAdd peer_gnu, RingAdd peer_node2]))) (nat 5 + 1) \<and>
   distinct (map ID [newCacheNode peer_gnu, newCacheNode peer_node1, newCacheNode peer_node2]) \<and>
   getNode (ring_run [RingAdd peer_node1, RingAdd peer_gnu, RingAdd peer_node2]) ''key1'' =
     Inr (Some (newCacheNode peer_gnu))"
proof -
  let ?ring = "ring_run [RingAdd peer_node1, RingAdd peer_gnu, RingAdd peer_node2]"
  let ?ns = "[newCacheNode peer_gnu, newCacheNode peer_node1, newCacheNode peer_node2]"
  have ring: "?ring = \<lparr>nodes = [newCacheNode peer_node1, newCacheNode peer_gnu, newCacheNode peer_node2],
      sortedHashes = [0x1ce674fa, 0x69c8c72d, 0x85ef2540],
      nodeMap = [0x85ef2540 \<mapsto> newCacheNode peer_node1, 0x69c8c72d \<mapsto> newCacheNode peer_gnu,
                 0x1ce674fa \<mapsto> newCacheNode peer_node2]\<rparr>"
    by (simp add: ring_run_def ring_addNode_def NewHashRing_def Let_def
        peer_node1_def peer_gnu_def peer_node2_def ringHash_examples)
  have inv: "ring_inv ?ring"
    unfolding ring
    by (simp add: ring_inv_def ID_newCacheNode peer_node1_def peer_gnu_def peer_node2_def
        ringHash_examples)
  have ne: "sortedHashes ?ring \<noteq> []"
    unfolding ring by simp
  have run: "getNodes ?ring ''key1'' 5 = Inr (map Some ?ns)"
    unfolding ring
    by (simp add: getNodes_def sort_Search_def search_loop.simps index_def
        getNodes_loop.simps clockwise_def ringHash_examples)
  from getNodes_replicas [OF inv ne, of 5 "''key1''"] obtain ns where
    ns: "getNodes ?ring ''key1'' 5 = Inr (map Some ns)"
      "length ns = min (length (sortedHashes ?ring)) (nat 5 + 1)"
      "distinct (map ID ns)"
      "getNode ?ring ''key1'' = Inr (Some (ns ! 0))"
    by auto
  from ns(1) run have "map Some ns = map Some ?ns" by simp
  then have "ns = ?ns" by (simp only: inj_map_eq_map [OF inj_Some])
  with ns inv ne run show ?thesis by simp
qed

section \<open>The registry and the ring\<close>


lemma remove_first_ID_absent:
  "a \<notin> ID ` set xs \<Longrightarrow> remove_first_ID a xs = xs"
  by (induction xs) auto













section \<open>The monitor\<close>




















section \<open>The receiver\<close>

lemma json_Unmarshal_Marshal: "json_Unmarshal (json_Marshal peer) node = (False, peer)"
  by (simp add: json_Unmarshal_def json_Marshal_def assign_def)

text \<open>
  What the receiver does with the heartbeat of a peer: it calls \<open>addNode\<close> when the ID
  is not the local one and the group is not the local one.
\<close>

lemma receive_round_heartbeat:
  "receive_round myNodeID myGroupID (Payload (json_Marshal peer)) now (node, cache) =
     (peer, if ID peer = myNodeID \<or> GroupID peer = myGroupID then cache
            else cache_addNode cache peer now)"
  by (simp add: receive_round_def json_Unmarshal_Marshal)

text \<open>
  C1. The receiver of \<open>node1\<close>, group \<open>A\<close>, with only itself in its cache, gets the
  heartbeat of \<open>node2\<close> of group \<open>A\<close>: the cache is as before, \<open>node2\<close> is not
  admitted. It gets the heartbeat of \<open>node3\<close> of group \<open>B\<close>: \<open>node3\<close> is added to the
  registry and to the ring.
\<close>

theorem receiver_same_group_dropped:
  "receive_round ''node1'' ''A'' (Payload (json_Marshal peer_node2)) 5
     (zero_nodeInfo, cache_run 0 [CacheAdd peer_node1 0])
     = (peer_node2, cache_run 0 [CacheAdd peer_node1 0]) \<and>
   nodeHB (cache_run 0 [CacheAdd peer_node1 0]) ''node2'' = None \<and>
   receive_round ''node1'' ''A'' (Payload (json_Marshal peer_node3)) 5
     (zero_nodeInfo, cache_run 0 [CacheAdd peer_node1 0])
     = (peer_node3, cache_run 0 [CacheAdd peer_node1 0, CacheAdd peer_node3 5]) \<and>
   nodeHB (cache_run 0 [CacheAdd peer_node1 0, CacheAdd peer_node3 5]) ''node3'' = Some 5"
  by (simp add: receive_round_heartbeat cache_run_def cache_addNode_def newDistributedCache_def
      peer_node1_def peer_node2_def peer_node3_def Let_def)

section \<open>SET\<close>

lemma Do_recording:
  "Do (recording env) req (w, sent) = (fst (Do env req w), (snd (Do env req w), sent @ [req]))"
  by (simp add: recording_def split_beta)

lemma setToNode_recording:
  "setToNode (recording env) cnode rank key val (w, sent) =
     (fst (setToNode env cnode rank key val w),
      (snd (setToNode env cnode rank key val w),
       sent @ [\<lparr>Method = POST, URL = createURLForSet cnode key rank, ReqBody = Some [(key, val)]\<rparr>]))"
  by (simp add: setToNode_def Do_recording split_beta Let_def split: sum.splits)

lemma set_range_sent:
  "set_range (recording env) key val idx ns err (w, sent0) = (res, (w', sent)) \<Longrightarrow>
   \<exists>m \<le> length ns.
     sent = sent0 @ map (\<lambda>i. \<lparr>Method = POST,
                                URL = createURLForSet (the (ns ! i)) key (int (idx + i) - 1),
                                ReqBody = Some [(key, val)]\<rparr>) [0 ..< m] \<and>
     (\<forall>i < m. ns ! i \<noteq> None)"
proof (induction ns arbitrary: idx err w sent0)
  case Nil
  then show ?case by simp
next
  case (Cons node rest)
  show ?case
  proof (cases node)
    case None
    with Cons.prems have "sent = sent0" by simp
    then show ?thesis by (intro exI [of _ 0]) simp
  next
    case (Some cnode)
    let ?req = "\<lparr>Method = POST, URL = createURLForSet cnode key (int idx - 1),
                  ReqBody = Some [(key, val)]\<rparr>"
    let ?f = "\<lambda>ns idx i. \<lparr>Method = POST,
                  URL = createURLForSet (the (ns ! i)) key (int (idx + i) - 1),
                  ReqBody = Some [(key, val)]\<rparr>"
    let ?e = "fst (setToNode env cnode (int idx - 1) key val w)"
    let ?w = "snd (setToNode env cnode (int idx - 1) key val w)"
    show ?thesis
    proof (cases "?e = None")
      case True
      with Cons.prems Some have "sent = sent0 @ [?req]"
        by (simp add: setToNode_recording)
      then have "sent = sent0 @ map (?f (node # rest) idx) [0 ..< 1]"
        using Some by simp
      moreover have "\<forall>i < 1. (node # rest) ! i \<noteq> None" using Some by simp
      ultimately show ?thesis by (intro exI [of _ 1]) simp
    next
      case False
      with Cons.prems Some
      have "set_range (recording env) key val (idx + 1) rest ?e (?w, sent0 @ [?req]) = (res, (w', sent))"
        by (simp add: setToNode_recording)
      from Cons.IH [OF this] obtain m where m: "m \<le> length rest"
        "sent = (sent0 @ [?req]) @ map (?f rest (idx + 1)) [0 ..< m]"
        "\<forall>i < m. rest ! i \<noteq> None"
        by blast
      have "map (?f (node # rest) idx) [0 ..< Suc m] =
          ?f (node # rest) idx 0 # map (?f (node # rest) idx \<circ> Suc) [0 ..< m]"
        by (simp only: upt_conv_Cons [OF zero_less_Suc] list.map map_Suc_upt [symmetric] map_map)
      also have "?f (node # rest) idx 0 = ?req" using Some by simp
      also have "map (?f (node # rest) idx \<circ> Suc) [0 ..< m] = map (?f rest (idx + 1)) [0 ..< m]"
        by (simp add: comp_def)
      finally have "sent = sent0 @ map (?f (node # rest) idx) [0 ..< Suc m]"
        using m(2) by simp
      moreover have "\<forall>i < Suc m. (node # rest) ! i \<noteq> None"
        using m(3) Some by (auto simp: less_Suc_eq_0_disj)
      moreover have "Suc m \<le> length (node # rest)" using m(1) by simp
      ultimately show ?thesis by blast
    qed
  qed
qed

text \<open>
  C5. The requests a SET sends are, in order, one to each replica it tries, and the one
  to the replica at index \<open>i\<close> of the replica list carries the rank \<open>i - 1\<close>
  (\<open>copy=-1\<close> for the primary, \<open>copy=0\<close> for the first redundant peer).
\<close>

theorem set_replica_rank:
  assumes "getNodes (hashRing cache) key (redundancy cache) = Inr ns"
    and "cache_set cache (recording env) key val (w, []) = (res, (w', sent))"
  shows "length sent \<le> length ns \<and>
         (\<forall>i < length sent. \<exists>cnode. ns ! i = Some cnode \<and>
            sent ! i = \<lparr>Method = POST, URL = createURLForSet cnode key (int i - 1),
                         ReqBody = Some [(key, val)]\<rparr>)"
proof -
  from assms have "set_range (recording env) key val 0 ns None (w, []) = (res, (w', sent))"
    by (simp add: cache_set_def)
  from set_range_sent [OF this] obtain m where m: "m \<le> length ns"
    "sent = map (\<lambda>i. \<lparr>Method = POST, URL = createURLForSet (the (ns ! i)) key (int i - 1),
                       ReqBody = Some [(key, val)]\<rparr>) [0 ..< m]"
    "\<forall>i < m. ns ! i \<noteq> None"
    by auto
  from m(2) have len: "length sent = m" by simp
  have "\<exists>cnode. ns ! i = Some cnode \<and>
          sent ! i = \<lparr>Method = POST, URL = createURLForSet cnode key (int i - 1),
                       ReqBody = Some [(key, val)]\<rparr>" if "i < length sent" for i
  proof -
    from that len m(3) obtain cnode where "ns ! i = Some cnode" by auto
    moreover from that len have "sent ! i = \<lparr>Method = POST,
        URL = createURLForSet (the (ns ! i)) key (int i - 1), ReqBody = Some [(key, val)]\<rparr>"
      unfolding m(2) by simp
    ultimately show ?thesis by simp
  qed
  with m(1) len show ?thesis by simp
qed

lemma newCacheNode_eq:
  "newCacheNode node =
     \<lparr>ID = ID node, IP = IP node, Port = Port node, GroupID = GroupID node, data = Map.empty\<rparr>"
  by (simp add: newCacheNode_def nodeInfo.defs cacheNode.defs)

text \<open>
  The cache of the examples: redundancy 1, the peers \<open>node1\<close> and \<open>gnu\<close>. The replicas
  of \<open>key1\<close> are \<open>gnu\<close>, the primary, and \<open>node1\<close>.
\<close>

lemma example_ring:
  "hashRing (cache_run 1 [CacheAdd peer_node1 0, CacheAdd peer_gnu 1]) =
     \<lparr>nodes = [newCacheNode peer_node1, newCacheNode peer_gnu],
      sortedHashes = [0x69c8c72d, 0x85ef2540],
      nodeMap = [0x85ef2540 \<mapsto> newCacheNode peer_node1, 0x69c8c72d \<mapsto> newCacheNode peer_gnu]\<rparr>"
  by (simp add: cache_run_def cache_addNode_def newDistributedCache_def ring_addNode_def
      NewHashRing_def Let_def peer_node1_def peer_gnu_def ringHash_examples)

lemma example_redundancy:
  "redundancy (cache_run 1 [CacheAdd peer_node1 0, CacheAdd peer_gnu 1]) = 1"
  by (simp add: cache_run_def cache_addNode_def newDistributedCache_def Let_def)

lemma example_replicas:
  "getNodes (hashRing (cache_run 1 [CacheAdd peer_node1 0, CacheAdd peer_gnu 1])) ''key1'' 1 =
     Inr [Some (newCacheNode peer_gnu), Some (newCacheNode peer_node1)]"
  unfolding example_ring
  by (simp add: getNodes_def sort_Search_def search_loop.simps index_def
      getNodes_loop.simps clockwise_def ringHash_examples)

lemma example_primary:
  "getNode (hashRing (cache_run 1 [CacheAdd peer_node1 0, CacheAdd peer_gnu 1])) ''key1'' =
     Inr (Some (newCacheNode peer_gnu))"
  unfolding example_ring
  by (simp add: getNode_def sort_Search_def search_loop.simps index_def ringHash_examples)

lemma example_set_urls:
  "createURLForSet (newCacheNode peer_gnu) ''key1'' (- 1) = ''https://10.0.0.1:8081?id=gnu&copy=-1''"
  "createURLForSet (newCacheNode peer_node1) ''key1'' 0 = ''https://127.0.0.1:8081?id=node1&copy=0''"
  by (simp_all add: createURLForSet_def newCacheNode_eq peer_gnu_def peer_node1_def
      Sprintf_d_def decimal.simps)

lemma setToNode_answering: "setToNode (answering code) cnode rank key val w = (None, w)"
  by (simp add: setToNode_def answering_def)

lemma setToNode_unreachable:
  "setToNode unreachable cnode rank key val w = (Some (Error ''connection refused''), w)"
  by (simp add: setToNode_def unreachable_def)

theorem set_replica_rank_witness:
  "getNodes (hashRing (cache_run 1 [CacheAdd peer_node1 0, CacheAdd peer_gnu 1])) ''key1''
     (redundancy (cache_run 1 [CacheAdd peer_node1 0, CacheAdd peer_gnu 1])) =
     Inr [Some (newCacheNode peer_gnu), Some (newCacheNode peer_node1)] \<and>
   cache_set (cache_run 1 [CacheAdd peer_node1 0, CacheAdd peer_gnu 1]) (recording unreachable)
     ''key1'' [1, 2, 3] ((), []) =
     (Inr (Some (Error ''connection refused'')),
      ((), [\<lparr>Method = POST, URL = ''https://10.0.0.1:8081?id=gnu&copy=-1'',
               ReqBody = Some [(''key1'', [1, 2, 3])]\<rparr>,
            \<lparr>Method = POST, URL = ''https://127.0.0.1:8081?id=node1&copy=0'',
               ReqBody = Some [(''key1'', [1, 2, 3])]\<rparr>])) \<and>
   ''https://10.0.0.1:8081?id=gnu&copy=-1'' = createURLForSet (newCacheNode peer_gnu) ''key1'' (int 0 - 1) \<and>
   ''https://127.0.0.1:8081?id=node1&copy=0'' = createURLForSet (newCacheNode peer_node1) ''key1'' (int 1 - 1)"
proof -
  let ?cache = "cache_run 1 [CacheAdd peer_node1 0, CacheAdd peer_gnu 1]"
  let ?sent = "[\<lparr>Method = POST, URL = ''https://10.0.0.1:8081?id=gnu&copy=-1'',
                  ReqBody = Some [(''key1'', [1, 2, 3])]\<rparr>,
               \<lparr>Method = POST, URL = ''https://127.0.0.1:8081?id=node1&copy=0'',
                  ReqBody = Some [(''key1'', [1, 2, 3 :: byte])]\<rparr>]"
  have replicas: "getNodes (hashRing ?cache) ''key1'' (redundancy ?cache) =
      Inr [Some (newCacheNode peer_gnu), Some (newCacheNode peer_node1)]"
    by (simp only: example_redundancy example_replicas)
  have run: "cache_set ?cache (recording unreachable) ''key1'' [1, 2, 3] ((), []) =
      (Inr (Some (Error ''connection refused'')), ((), ?sent))"
    by (simp add: cache_set_def replicas setToNode_recording setToNode_unreachable
        example_set_urls)
  from set_replica_rank [OF replicas run]
  have each: "\<forall>i < 2. \<exists>cnode.
      [Some (newCacheNode peer_gnu), Some (newCacheNode peer_node1)] ! i = Some cnode \<and>
      ?sent ! i = \<lparr>Method = POST, URL = createURLForSet cnode ''key1'' (int i - 1),
                     ReqBody = Some [(''key1'', [1, 2, 3])]\<rparr>"
    by simp
  from each [rule_format, of 0]
  have u0: "''https://10.0.0.1:8081?id=gnu&copy=-1'' =
      createURLForSet (newCacheNode peer_gnu) ''key1'' (int 0 - 1)"
    by simp
  from each [rule_format, of 1]
  have u1: "''https://127.0.0.1:8081?id=node1&copy=0'' =
      createURLForSet (newCacheNode peer_node1) ''key1'' (int 1 - 1)"
    by simp
  from replicas run u0 u1 show ?thesis by (intro conjI)
qed

text \<open>
  C6. A SET of \<open>key1\<close> on the cache of the examples (replicas \<open>gnu\<close>, then
  \<open>node1\<close>), against servers that answer every request with status 400: the SET stops
  after the primary and returns no error; the second replica gets no request. A GET of
  the same servers fails on the status. Against servers that cannot be reached the SET
  goes on to the second replica and returns the last error.
\<close>

theorem set_ignores_status:
  "cache_set (cache_run 1 [CacheAdd peer_node1 0, CacheAdd peer_gnu 1]) (recording (answering 400))
     ''key1'' [1, 2, 3] ((), []) =
     (Inr None,
      ((), [\<lparr>Method = POST, URL = ''https://10.0.0.1:8081?id=gnu&copy=-1'',
               ReqBody = Some [(''key1'', [1, 2, 3])]\<rparr>])) \<and>
   getNodes (hashRing (cache_run 1 [CacheAdd peer_node1 0, CacheAdd peer_gnu 1])) ''key1''
     (redundancy (cache_run 1 [CacheAdd peer_node1 0, CacheAdd peer_gnu 1])) =
     Inr [Some (newCacheNode peer_gnu), Some (newCacheNode peer_node1)] \<and>
   getFromNode (answering 400) (newCacheNode peer_gnu) ''key1'' () =
     (Inl (Error ''failed to get key: key1 from gnu''), ()) \<and>
   cache_set (cache_run 1 [CacheAdd peer_node1 0, CacheAdd peer_gnu 1]) (recording unreachable)
     ''key1'' [1, 2, 3] ((), []) =
     (Inr (Some (Error ''connection refused'')),
      ((), [\<lparr>Method = POST, URL = ''https://10.0.0.1:8081?id=gnu&copy=-1'',
               ReqBody = Some [(''key1'', [1, 2, 3])]\<rparr>,
            \<lparr>Method = POST, URL = ''https://127.0.0.1:8081?id=node1&copy=0'',
               ReqBody = Some [(''key1'', [1, 2, 3])]\<rparr>]))"
proof (intro conjI)
  let ?cache = "cache_run 1 [CacheAdd peer_node1 0, CacheAdd peer_gnu 1]"
  show replicas: "getNodes (hashRing ?cache) ''key1'' (redundancy ?cache) =
      Inr [Some (newCacheNode peer_gnu), Some (newCacheNode peer_node1)]"
    by (simp only: example_redundancy example_replicas)
  show "cache_set ?cache (recording (answering 400)) ''key1'' [1, 2, 3] ((), []) =
      (Inr None,
       ((), [\<lparr>Method = POST, URL = ''https://10.0.0.1:8081?id=gnu&copy=-1'',
                ReqBody = Some [(''key1'', [1, 2, 3])]\<rparr>]))"
    by (simp add: cache_set_def replicas setToNode_recording setToNode_answering
        example_set_urls)
  show "getFromNode (answering 400) (newCacheNode peer_gnu) ''key1'' () =
      (Inl (Error ''failed to get key: key1 from gnu''), ())"
    by (simp add: getFromNode_def answering_def newCacheNode_eq peer_gnu_def)
  show "cache_set ?cache (recording unreachable) ''key1'' [1, 2, 3] ((), []) =
      (Inr (Some (Error ''connection refused'')),
       ((), [\<lparr>Method = POST, URL = ''https://10.0.0.1:8081?id=gnu&copy=-1'',
                ReqBody = Some [(''key1'', [1, 2, 3])]\<rparr>,
             \<lparr>Method = POST, URL = ''https://127.0.0.1:8081?id=node1&copy=0'',
                ReqBody = Some [(''key1'', [1, 2, 3])]\<rparr>]))"
    by (simp add: cache_set_def replicas setToNode_recording setToNode_unreachable
        example_set_urls)
qed

section \<open>REMOVE\<close>

lemma peer_Do_frame:
  "peer_Do parse req net = (r, net') \<Longrightarrow> net' host \<noteq> net host \<Longrightarrow>
   \<exists>u. parse (URL req) = Some u \<and> Host u = host"
  by (auto simp: peer_Do_def split_beta split: option.splits if_splits)

text \<open>
  C8. The requests a REMOVE sends are at most one, the DELETE for the key at the URL of
  the primary that \<open>getNode\<close> returns; and in a network of peers, the store of every
  address other than the one of that URL is as it was before.
\<close>

theorem remove_primary_only:
  assumes "cache_remove cache (recording (peers parse)) key (net, []) = (res, (net', sent))"
  shows "length sent \<le> 1 \<and>
         (\<forall>req \<in> set sent. \<exists>primary.
            getNode (hashRing cache) key = Inr (Some primary) \<and>
            req = \<lparr>Method = DELETE, URL = createURL primary key, ReqBody = None\<rparr>) \<and>
         (\<forall>host. net' host \<noteq> net host \<longrightarrow>
            (\<exists>primary u. getNode (hashRing cache) key = Inr (Some primary) \<and>
               parse (createURL primary key) = Some u \<and> Host u = host))"
proof (cases "getNode (hashRing cache) key")
  case (Inl p)
  with assms show ?thesis by (simp add: cache_remove_def)
next
  case (Inr node)
  show ?thesis
  proof (cases node)
    case None
    with Inr assms show ?thesis by (simp add: cache_remove_def)
  next
    case (Some primary)
    let ?url = "createURL primary key"
    let ?req = "\<lparr>Method = DELETE, URL = ?url, ReqBody = None\<rparr>"
    show ?thesis
    proof (cases "parse ?url")
      case None
      with Inr Some assms show ?thesis
        by (simp add: cache_remove_def recording_def peers_def)
    next
      case u: (Some u)
      obtain r net1 where d: "peer_Do parse ?req net = (r, net1)" by (cases "peer_Do parse ?req net")
      from assms Inr Some u d have "net' = net1" "sent = [?req]"
        by (auto simp: cache_remove_def recording_def peers_def Let_def
            split: sum.splits)
      with peer_Do_frame [OF d] u Inr Some show ?thesis by auto
    qed
  qed
qed

lemma example_remove_url:
  "createURL (newCacheNode peer_gnu) ''key1'' = ''https://10.0.0.1:8081?id=gnu&key=key1''"
  by (simp add: createURL_def newCacheNode_eq peer_gnu_def)

lemma example_remove:
  "cache_remove (cache_run 1 [CacheAdd peer_node1 0, CacheAdd peer_gnu 1])
     (recording (peers example_parse)) ''key1'' (example_network, []) =
     (Inr True,
      (example_network(''10.0.0.1:8081'' \<mapsto>
         cacheNode_remove (cacheNode_set (newCacheNode peer_gnu) ''key1'' (- 1) [1, 2, 3]) ''key1''),
       [\<lparr>Method = DELETE, URL = ''https://10.0.0.1:8081?id=gnu&key=key1'', ReqBody = None\<rparr>]))"
  by (simp add: cache_remove_def example_primary example_remove_url recording_def peers_def
      peer_Do_def example_parse_def example_network_def ServeHTTP_def Let_def)

theorem remove_primary_only_witness:
  "cache_remove (cache_run 1 [CacheAdd peer_node1 0, CacheAdd peer_gnu 1])
     (recording (peers example_parse)) ''key1'' (example_network, []) =
     (Inr True,
      (example_network(''10.0.0.1:8081'' \<mapsto>
         cacheNode_remove (cacheNode_set (newCacheNode peer_gnu) ''key1'' (- 1) [1, 2, 3]) ''key1''),
       [\<lparr>Method = DELETE, URL = ''https://10.0.0.1:8081?id=gnu&key=key1'', ReqBody = None\<rparr>])) \<and>
   getNode (hashRing (cache_run 1 [CacheAdd peer_node1 0, CacheAdd peer_gnu 1])) ''key1'' =
     Inr (Some (newCacheNode peer_gnu)) \<and>
   (\<exists>primary u.
      getNode (hashRing (cache_run 1 [CacheAdd peer_node1 0, CacheAdd peer_gnu 1])) ''key1'' =
        Inr (Some primary) \<and>
      example_parse (createURL primary ''key1'') = Some u \<and> Host u = ''10.0.0.1:8081'') \<and>
   cacheNode_get (the (example_network ''10.0.0.1:8081'')) ''key1'' = ([1, 2, 3], True) \<and>
   cacheNode_get (the ((example_network(''10.0.0.1:8081'' \<mapsto>
       cacheNode_remove (cacheNode_set (newCacheNode peer_gnu) ''key1'' (- 1) [1, 2, 3]) ''key1''))
       ''10.0.0.1:8081'')) ''key1'' = ([], False) \<and>
   cacheNode_get (the ((example_network(''10.0.0.1:8081'' \<mapsto>
       cacheNode_remove (cacheNode_set (newCacheNode peer_gnu) ''key1'' (- 1) [1, 2, 3]) ''key1''))
       ''127.0.0.1:8081'')) ''key1'' = ([1, 2, 3], True)"
proof -
  let ?net' = "example_network(''10.0.0.1:8081'' \<mapsto>
      cacheNode_remove (cacheNode_set (newCacheNode peer_gnu) ''key1'' (- 1) [1, 2, 3]) ''key1'')"
  have changed: "?net' ''10.0.0.1:8081'' \<noteq> example_network ''10.0.0.1:8081''"
    by (simp add: example_network_def cacheNode_remove_def cacheNode_set_def newCacheNode_eq
        fun_eq_iff)
  from remove_primary_only [OF example_remove] changed
  have hit: "\<exists>primary u.
      getNode (hashRing (cache_run 1 [CacheAdd peer_node1 0, CacheAdd peer_gnu 1])) ''key1'' =
        Inr (Some primary) \<and>
      example_parse (createURL primary ''key1'') = Some u \<and> Host u = ''10.0.0.1:8081''"
    by blast
  have before: "cacheNode_get (the (example_network ''10.0.0.1:8081'')) ''key1'' = ([1, 2, 3], True)"
    by (simp add: example_network_def cacheNode_get_def cacheNode_set_def)
  have after: "cacheNode_get (the (?net' ''10.0.0.1:8081'')) ''key1'' = ([], False)"
    by (simp add: cacheNode_get_def cacheNode_remove_def)
  have other: "cacheNode_get (the (?net' ''127.0.0.1:8081'')) ''key1'' = ([1, 2, 3], True)"
    by (simp add: example_network_def cacheNode_get_def cacheNode_set_def)
  from example_remove example_primary hit before after other show ?thesis by (intro conjI)
qed

end
